theory Spec2Isabelle
  imports Main "HOL-Library.Word"
begin

section \<open>The event ring buffer of \<open>atomic_event_ring_buffer.c\<close>\<close>

text \<open>
  The C file declares an event of two unsigned 32-bit fields and a ring buffer made of
  two atomic unsigned 64-bit cursors, \<open>head\<close> (next position to dequeue) and \<open>tail\<close>
  (next position to enqueue), followed by an array of \<open>RING_SIZE\<close> events.
  The array is a list here; its declared length is the predicate \<open>buffer_sized\<close>.
  Every index the code uses is a remainder modulo \<open>RING_SIZE\<close>, hence inside the array.
  The alignment attributes and the memory orders of the atomic operations have no
  counterpart here: a call is a function from the state before it to the state after it.
  Where another thread matters, its calls are placed between two statements of the call
  at hand: between the two halves of \<open>enqueue_event\<close>, and inside the loop of the
  dequeue in \<open>dequeue_event_among\<close>.
\<close>

record Event =
  pid :: "32 word"
  vpn :: "32 word"

record AtomicEventRingBuffer =
  head :: "64 word"
  tail :: "64 word"
  buffer :: "Event list"

text \<open>
  \<open>RING_SIZE\<close> is a preprocessor constant, 1024 in the file. Every function below
  takes the constant as its first argument \<open>ring_size\<close>, so that the same code can be
  read at another array length; the compiled program is the instance \<open>RING_SIZE\<close>.
  In \<open>(current_tail + 1) % RING_SIZE\<close> the constant is converted to the 64-bit unsigned
  type of the cursor, hence its type here. C leaves \<open>% 0\<close> undefined, so statements
  that depend on the remainder assume \<open>ring_size \<noteq> 0\<close>.
\<close>

definition RING_SIZE :: "64 word" where
  "RING_SIZE = 1024"

definition buffer_sized :: "64 word \<Rightarrow> AtomicEventRingBuffer \<Rightarrow> bool" where
  "buffer_sized ring_size rb = (length (buffer rb) = unat ring_size)"

subsection \<open>Initialisation\<close>

text \<open>
  \<open>ring_buffer_init\<close> stores 0 in \<open>head\<close>, then 0 in \<open>tail\<close>, and leaves the array as it
  is. It returns nothing and has no failing path; the message it prints is not modelled.
\<close>

definition ring_buffer_init :: "AtomicEventRingBuffer \<Rightarrow> AtomicEventRingBuffer" where
  "ring_buffer_init rb = (rb\<lparr>head := 0\<rparr>)\<lparr>tail := 0\<rparr>"

subsection \<open>Compare and exchange\<close>

text \<open>
  \<open>atomic_compare_exchange obj expected desired\<close> gives the success flag, the new value
  of the atomic object and the new value of the caller's \<open>expected\<close> variable: on a match
  the object becomes \<open>desired\<close>, otherwise \<open>expected\<close> is overwritten with the value
  found. The weak form used by the C code may also fail spuriously; a call that runs
  alone is modelled without such failures, so it fails only on a mismatch.
\<close>

definition atomic_compare_exchange ::
  "64 word \<Rightarrow> 64 word \<Rightarrow> 64 word \<Rightarrow> bool \<times> 64 word \<times> 64 word" where
  "atomic_compare_exchange obj expected desired =
     (if obj = expected then (True, desired, expected) else (False, obj, obj))"

subsection \<open>Enqueue\<close>

text \<open>
  The \<open>do ... while\<close> loop of \<open>enqueue_event\<close> (lines 57 to 79): load \<open>tail\<close> and
  \<open>head\<close>, compute the next tail, leave with the value \<open>None\<close> when the buffer is full
  (the function then returns \<open>-1\<close>), otherwise try to move \<open>tail\<close> by compare and
  exchange and repeat on failure. On success the loop ends with the claimed position
  \<open>current_tail\<close>. The loop has no bound in the source; not returning is the value
  \<open>None\<close> of the outer option.
\<close>

partial_function (option) enqueue_claim ::
  "64 word \<Rightarrow> AtomicEventRingBuffer \<Rightarrow> (64 word option \<times> AtomicEventRingBuffer) option" where
  [code]: "enqueue_claim ring_size rb =
     (let current_tail = tail rb;
          current_head = head rb;
          next_tail = (current_tail + 1) mod ring_size
      in if next_tail = current_head then Some (None, rb)
         else (case atomic_compare_exchange (tail rb) current_tail next_tail of
                 (swapped, new_tail, observed) \<Rightarrow>
                   if swapped then Some (Some current_tail, rb\<lparr>tail := new_tail\<rparr>)
                   else enqueue_claim ring_size rb))"

text \<open>The statement after the loop (line 83): the event is copied into the claimed slot.\<close>

definition enqueue_write ::
  "64 word \<Rightarrow> 64 word \<Rightarrow> AtomicEventRingBuffer \<Rightarrow> Event \<Rightarrow> AtomicEventRingBuffer" where
  "enqueue_write ring_size current_tail rb event =
     rb\<lparr>buffer := (buffer rb)[unat (current_tail mod ring_size) := event]\<rparr>"

text \<open>
  \<open>enqueue_event\<close> is the loop followed by the write. The result is the returned
  \<open>int\<close> (0 on success, \<open>-1\<close> when full) and the buffer after the call. The event is
  passed through a pointer to \<open>const\<close> and only read, so it is an argument by value.
\<close>

definition enqueue_event ::
  "64 word \<Rightarrow> AtomicEventRingBuffer \<Rightarrow> Event \<Rightarrow> (int \<times> AtomicEventRingBuffer) option" where
  "enqueue_event ring_size rb event =
     (case enqueue_claim ring_size rb of
        None \<Rightarrow> None
      | Some (None, rb') \<Rightarrow> Some (- 1, rb')
      | Some (Some current_tail, rb') \<Rightarrow>
          Some (0, enqueue_write ring_size current_tail rb' event))"

subsection \<open>Dequeue\<close>

text \<open>
  \<open>dequeue_event\<close> is one \<open>do ... while\<close> loop (lines 97 to 118): load \<open>head\<close> and
  \<open>tail\<close>, return \<open>-1\<close> when they are equal, otherwise copy the slot at \<open>head\<close> into
  the caller's event and try to move \<open>head\<close> by compare and exchange, repeating on
  failure. The third argument is the content of the caller's event before the call;
  the result carries its content after the call. A repeated iteration starts with the
  event already overwritten, as in the source.
\<close>

partial_function (option) dequeue_event ::
  "64 word \<Rightarrow> AtomicEventRingBuffer \<Rightarrow> Event \<Rightarrow> (int \<times> AtomicEventRingBuffer \<times> Event) option" where
  [code]: "dequeue_event ring_size rb event =
     (let current_head = head rb;
          current_tail = tail rb
      in if current_head = current_tail then Some (- 1, rb, event)
         else (let event' = buffer rb ! unat (current_head mod ring_size)
               in case atomic_compare_exchange (head rb) current_head
                         ((current_head + 1) mod ring_size) of
                    (swapped, new_head, observed) \<Rightarrow>
                      if swapped then Some (0, rb\<lparr>head := new_head\<rparr>, event')
                      else dequeue_event ring_size rb event'))"

section \<open>Sequences of calls\<close>

text \<open>
  A caller issues the three functions one after the other. \<open>Dequeue out\<close> carries the
  content of the caller's event variable before the call. Each call leaves an outcome:
  the returned \<open>int\<close>, and for a dequeue also the content of the event variable after
  the call.
\<close>

datatype call = Init | Enqueue Event | Dequeue Event

datatype outcome = Done | Enqueued int | Dequeued int Event

text \<open>
  \<open>step\<close> runs one call. Next to the ring buffer it keeps a count that the C code does
  not have: the number of events stored, which is set to 0 by \<open>Init\<close>, goes up by one
  when an enqueue returns 0 and down by one when a dequeue returns 0. It is an \<open>int\<close>, so
  that a dequeue from an empty buffer that succeeded would show as a negative count.
\<close>

fun step ::
  "64 word \<Rightarrow> call \<Rightarrow> AtomicEventRingBuffer \<times> int \<Rightarrow>
     (outcome \<times> AtomicEventRingBuffer \<times> int) option" where
  "step n Init (rb, occ) = Some (Done, ring_buffer_init rb, 0)"
| "step n (Enqueue ev) (rb, occ) =
     (case enqueue_event n rb ev of
        None \<Rightarrow> None
      | Some (r, rb') \<Rightarrow> Some (Enqueued r, rb', if r = 0 then occ + 1 else occ))"
| "step n (Dequeue out) (rb, occ) =
     (case dequeue_event n rb out of
        None \<Rightarrow> None
      | Some (r, rb', out') \<Rightarrow> Some (Dequeued r out', rb', if r = 0 then occ - 1 else occ))"

fun exec ::
  "64 word \<Rightarrow> call list \<Rightarrow> AtomicEventRingBuffer \<times> int \<Rightarrow>
     (outcome list \<times> AtomicEventRingBuffer \<times> int) option" where
  "exec n [] s = Some ([], s)"
| "exec n (c # cs) s =
     (case step n c s of
        None \<Rightarrow> None
      | Some (y, s') \<Rightarrow>
          (case exec n cs s' of None \<Rightarrow> None | Some (ys, s'') \<Rightarrow> Some (y # ys, s'')))"

text \<open>
  The states reached by the program are those of \<open>exec n (Init # calls) s0\<close>: the
  structure holds anything before the first call, which is \<open>ring_buffer_init\<close>.
\<close>

subsection \<open>A dequeue while other threads run\<close>

text \<open>
  The loop of \<open>dequeue_event\<close> once more, with the calls that other threads complete
  between the copy of the slot (line 114) and the compare and exchange (line 118) of
  each iteration: the second argument lists them, one list per iteration. The compare and
  exchange then meets the \<open>head\<close> those calls have left, and fails when it differs from
  the value loaded. When the list is used up the rest of the call runs alone. The other
  threads may act at further points of the loop; this one is where a consumer loses a
  slot it has already copied.
\<close>

fun dequeue_event_among ::
  "64 word \<Rightarrow> call list list \<Rightarrow> AtomicEventRingBuffer \<Rightarrow> Event \<Rightarrow>
     (int \<times> AtomicEventRingBuffer \<times> Event) option" where
  "dequeue_event_among ring_size [] rb event = dequeue_event ring_size rb event"
| "dequeue_event_among ring_size (others # later) rb event =
     (let current_head = head rb;
          current_tail = tail rb
      in if current_head = current_tail then Some (- 1, rb, event)
         else (let event' = buffer rb ! unat (current_head mod ring_size)
               in case exec ring_size others (rb, 0) of
                    None \<Rightarrow> None
                  | Some (outs, rb1, occ) \<Rightarrow>
                      (case atomic_compare_exchange (head rb1) current_head
                              ((current_head + 1) mod ring_size) of
                         (swapped, new_head, observed) \<Rightarrow>
                           if swapped then Some (0, rb1\<lparr>head := new_head\<rparr>, event')
                           else dequeue_event_among ring_size later rb1 event')))"

subsection \<open>What the cursors say about the content\<close>

definition cursors_in_range :: "64 word \<Rightarrow> AtomicEventRingBuffer \<Rightarrow> bool" where
  "cursors_in_range n rb = (head rb < n \<and> tail rb < n)"

text \<open>The distance from \<open>head\<close> forward to \<open>tail\<close> around the ring, as an integer.\<close>

definition occupancy :: "64 word \<Rightarrow> AtomicEventRingBuffer \<Rightarrow> int" where
  "occupancy n rb = (uint (tail rb) - uint (head rb)) mod uint n"

definition consistent :: "64 word \<Rightarrow> AtomicEventRingBuffer \<times> int \<Rightarrow> bool" where
  "consistent n s = (cursors_in_range n (fst s) \<and> snd s = occupancy n (fst s))"

text \<open>The position after \<open>T\<close> in a ring of \<open>N\<close> positions, on integers.\<close>

definition next_index :: "int \<Rightarrow> int \<Rightarrow> int" where
  "next_index N T = (if T + 1 = N then 0 else T + 1)"

subsection \<open>Concrete buffers\<close>

text \<open>
  The test program that includes the queue declares the ring buffer as a global,
  \<open>global_ring_buffer\<close>, which C fills with zeros before the program starts.
  \<open>first_event\<close> is the first event of its producer 1 (\<open>pid = 1 * 1000 + 0\<close>,
  \<open>vpn = 0\<close>). The other three buffers are the global after 1023 enqueues of that
  event (\<open>full_buffer\<close>), after one more dequeue (\<open>wrap_buffer\<close>) and after one more
  enqueue (\<open>wrapped_buffer\<close>).
\<close>

definition zero_event :: Event where
  "zero_event = \<lparr>pid = 0, vpn = 0\<rparr>"

definition first_event :: Event where
  "first_event = \<lparr>pid = 1000, vpn = 0\<rparr>"

definition global_ring_buffer :: AtomicEventRingBuffer where
  "global_ring_buffer = \<lparr>head = 0, tail = 0, buffer = replicate 1024 zero_event\<rparr>"

definition full_buffer :: AtomicEventRingBuffer where
  "full_buffer = \<lparr>head = 0, tail = 1023, buffer = replicate 1023 first_event @ [zero_event]\<rparr>"

definition wrap_buffer :: AtomicEventRingBuffer where
  "wrap_buffer = \<lparr>head = 1, tail = 1023, buffer = replicate 1023 first_event @ [zero_event]\<rparr>"

definition wrapped_buffer :: AtomicEventRingBuffer where
  "wrapped_buffer = \<lparr>head = 1, tail = 0, buffer = replicate 1023 first_event @ [first_event]\<rparr>"

text \<open>The global after the initialisation and one enqueue of \<open>first_event\<close>.\<close>

definition one_event_buffer :: AtomicEventRingBuffer where
  "one_event_buffer =
     \<lparr>head = 0, tail = 1, buffer = (replicate 1024 zero_event)[0 := first_event]\<rparr>"

section \<open>Results of single calls\<close>

text \<open>
  A call that runs alone finds in the compare and exchange the value it has just loaded,
  so each loop ends in its first iteration. The lemmas give the results.
\<close>

lemma enqueue_claim_result:
  "enqueue_claim n rb =
     Some (if (tail rb + 1) mod n = head rb then (None, rb)
           else (Some (tail rb), rb\<lparr>tail := (tail rb + 1) mod n\<rparr>))"
  by (subst enqueue_claim.simps) (simp add: atomic_compare_exchange_def Let_def)

lemma enqueue_event_result:
  "enqueue_event n rb ev =
     Some (if (tail rb + 1) mod n = head rb then (- 1, rb)
           else (0, rb\<lparr>tail := (tail rb + 1) mod n,
                        buffer := (buffer rb)[unat (tail rb mod n) := ev]\<rparr>))"
  by (simp add: enqueue_event_def enqueue_claim_result enqueue_write_def)

lemma dequeue_event_result:
  "dequeue_event n rb out =
     Some (if head rb = tail rb then (- 1, rb, out)
           else (0, rb\<lparr>head := (head rb + 1) mod n\<rparr>, buffer rb ! unat (head rb mod n)))"
  by (subst dequeue_event.simps) (simp add: atomic_compare_exchange_def Let_def)

lemma enqueue_return:
  "map_option fst (enqueue_event n rb ev) =
     Some (if (tail rb + 1) mod n = head rb then - 1 else 0)"
  by (simp add: enqueue_event_result)

lemma dequeue_return:
  "map_option fst (dequeue_event n rb out) = Some (if head rb = tail rb then - 1 else 0)"
  by (simp add: dequeue_event_result)

lemma ring_size_nonzero: "RING_SIZE \<noteq> 0"
  by (simp add: RING_SIZE_def)

text \<open>Other threads that do nothing leave the dequeue as it is when it runs alone.\<close>

lemma dequeue_event_among_idle:
  "dequeue_event_among n (replicate k []) rb out = dequeue_event n rb out"
  by (induction k) (simp_all add: dequeue_event_result atomic_compare_exchange_def Let_def)

section \<open>Arithmetic of the cursors\<close>

lemma int_mod_diff:
  fixes T H N :: int
  assumes "0 \<le> T" "T < N" "0 \<le> H" "H < N"
  shows "(T - H) mod N = (if H \<le> T then T - H else T - H + N)"
proof (cases "H \<le> T")
  case True
  have "(T - H) mod N = T - H"
    by (rule mod_pos_pos_trivial) (use assms True in linarith)+
  with True show ?thesis by simp
next
  case False
  have "(T - H + N) mod N = T - H + N"
    by (rule mod_pos_pos_trivial) (use assms False in linarith)+
  moreover have "(T - H + N) mod N = (T - H) mod N"
    by (rule mod_add_self2)
  ultimately have "(T - H) mod N = T - H + N" by simp
  with False show ?thesis by simp
qed

lemma next_index_range:
  assumes "0 \<le> T" "T < N"
  shows "0 \<le> next_index N T \<and> next_index N T < N"
  using assms by (auto simp: next_index_def)

lemma int_full_iff:
  fixes T H N :: int
  assumes "0 \<le> T" "T < N" "0 \<le> H" "H < N"
  shows "(next_index N T = H) = ((T - H) mod N = N - 1)"
  unfolding int_mod_diff [OF assms] next_index_def using assms by auto

lemma int_empty_iff:
  fixes T H N :: int
  assumes "0 \<le> T" "T < N" "0 \<le> H" "H < N"
  shows "(H = T) = ((T - H) mod N = 0)"
  unfolding int_mod_diff [OF assms] using assms by auto

lemma int_enqueue_step:
  fixes T H N :: int
  assumes "0 \<le> T" "T < N" "0 \<le> H" "H < N" "next_index N T \<noteq> H"
  shows "(next_index N T - H) mod N = (T - H) mod N + 1"
proof -
  note nr = next_index_range [OF assms(1,2)]
  have "(next_index N T - H) mod N =
          (if H \<le> next_index N T then next_index N T - H else next_index N T - H + N)"
    by (rule int_mod_diff) (use nr assms in simp_all)
  then show ?thesis
    unfolding int_mod_diff [OF assms(1-4)] using assms by (auto simp: next_index_def split: if_splits)
qed

lemma int_dequeue_step:
  fixes T H N :: int
  assumes "0 \<le> T" "T < N" "0 \<le> H" "H < N" "H \<noteq> T"
  shows "(T - next_index N H) mod N = (T - H) mod N - 1"
proof -
  note nr = next_index_range [OF assms(3,4)]
  have "(T - next_index N H) mod N =
          (if next_index N H \<le> T then T - next_index N H else T - next_index N H + N)"
    by (rule int_mod_diff) (use nr assms in simp_all)
  then show ?thesis
    unfolding int_mod_diff [OF assms(1-4)] using assms by (auto simp: next_index_def split: if_splits)
qed

lemma uint_next_cursor:
  fixes t n :: "64 word"
  assumes "t < n"
  shows "uint ((t + 1) mod n) = next_index (uint n) (uint t)"
proof -
  have lt: "uint t < uint n" using assms by (simp add: word_less_def)
  moreover have "uint n < 2 ^ 64" using uint_lt2p [of n] by simp
  ultimately have "uint t + 1 < 2 ^ 64" by simp
  then have "uint (t + 1) = uint t + 1"
    by (simp add: uint_word_ariths(1) mod_pos_pos_trivial)
  then have "uint ((t + 1) mod n) = (uint t + 1) mod uint n"
    by (simp add: uint_mod)
  also have "\<dots> = next_index (uint n) (uint t)"
  proof (cases "uint t + 1 = uint n")
    case True
    then show ?thesis by (simp add: next_index_def)
  next
    case False
    have "(uint t + 1) mod uint n = uint t + 1"
      by (rule mod_pos_pos_trivial) (use lt False in simp_all)
    with False show ?thesis by (simp add: next_index_def)
  qed
  finally show ?thesis .
qed

lemma next_cursor_in_range:
  fixes t n :: "64 word"
  assumes "n \<noteq> 0"
  shows "(t + 1) mod n < n"
  using assms by (simp add: word_mod_less_divisor word_neq_0_conv)

lemma cursor_bounds:
  assumes "cursors_in_range n rb"
  shows "0 \<le> uint (tail rb)" "uint (tail rb) < uint n" "0 \<le> uint (head rb)" "uint (head rb) < uint n"
  using assms by (simp_all add: cursors_in_range_def word_less_def)

lemma full_iff_occupancy:
  assumes "cursors_in_range n rb"
  shows "((tail rb + 1) mod n = head rb) = (occupancy n rb = uint n - 1)"
proof -
  have t: "tail rb < n" using assms by (simp add: cursors_in_range_def)
  have "((tail rb + 1) mod n = head rb) = (next_index (uint n) (uint (tail rb)) = uint (head rb))"
    by (simp add: word_uint_eq_iff uint_next_cursor [OF t])
  also have "\<dots> = (occupancy n rb = uint n - 1)"
    unfolding occupancy_def by (rule int_full_iff [OF cursor_bounds [OF assms]])
  finally show ?thesis .
qed

lemma empty_iff_occupancy:
  assumes "cursors_in_range n rb"
  shows "(head rb = tail rb) = (occupancy n rb = 0)"
proof -
  have "(head rb = tail rb) = (uint (head rb) = uint (tail rb))"
    by (simp add: word_uint_eq_iff)
  also have "\<dots> = (occupancy n rb = 0)"
    unfolding occupancy_def by (rule int_empty_iff [OF cursor_bounds [OF assms]])
  finally show ?thesis .
qed

lemma occupancy_bounds:
  assumes "cursors_in_range n rb"
  shows "0 \<le> occupancy n rb \<and> occupancy n rb \<le> uint n - 1"
proof -
  have "0 < uint n" using cursor_bounds(1,2) [OF assms] by linarith
  then have "0 \<le> occupancy n rb \<and> occupancy n rb < uint n"
    unfolding occupancy_def by simp
  then show ?thesis by simp
qed

section \<open>The cursors along a sequence of calls\<close>

lemma init_consistent:
  assumes "n \<noteq> 0"
  shows "consistent n (ring_buffer_init rb, 0)"
  using assms
  by (simp add: consistent_def cursors_in_range_def occupancy_def ring_buffer_init_def
      word_neq_0_conv)

lemma enqueue_occupancy:
  assumes "cursors_in_range n rb" "(tail rb + 1) mod n \<noteq> head rb"
  shows "occupancy n (rb\<lparr>tail := (tail rb + 1) mod n, buffer := b\<rparr>) = occupancy n rb + 1"
proof -
  have t: "tail rb < n" using assms by (simp add: cursors_in_range_def)
  have nf: "next_index (uint n) (uint (tail rb)) \<noteq> uint (head rb)"
    using assms(2) by (simp add: word_uint_eq_iff uint_next_cursor [OF t])
  have "occupancy n (rb\<lparr>tail := (tail rb + 1) mod n, buffer := b\<rparr>) =
          (next_index (uint n) (uint (tail rb)) - uint (head rb)) mod uint n"
    by (simp add: occupancy_def uint_next_cursor [OF t])
  also have "\<dots> = occupancy n rb + 1"
    unfolding occupancy_def by (rule int_enqueue_step [OF cursor_bounds [OF assms(1)] nf])
  finally show ?thesis .
qed

lemma dequeue_occupancy:
  assumes "cursors_in_range n rb" "head rb \<noteq> tail rb"
  shows "occupancy n (rb\<lparr>head := (head rb + 1) mod n\<rparr>) = occupancy n rb - 1"
proof -
  have h: "head rb < n" using assms by (simp add: cursors_in_range_def)
  have ne: "uint (head rb) \<noteq> uint (tail rb)"
    using assms(2) by (simp add: word_uint_eq_iff)
  have "occupancy n (rb\<lparr>head := (head rb + 1) mod n\<rparr>) =
          (uint (tail rb) - next_index (uint n) (uint (head rb))) mod uint n"
    by (simp add: occupancy_def uint_next_cursor [OF h])
  also have "\<dots> = occupancy n rb - 1"
    unfolding occupancy_def by (rule int_dequeue_step [OF cursor_bounds [OF assms(1)] ne])
  finally show ?thesis .
qed

lemma step_consistent:
  assumes "consistent n s" "step n c s = Some (y, s')"
  shows "consistent n s'"
proof -
  obtain rb occ where s: "s = (rb, occ)" by (cases s)
  have inr: "cursors_in_range n rb" and occ: "occ = occupancy n rb"
    using assms(1) by (simp_all add: consistent_def s)
  have n0: "n \<noteq> 0" using inr by (auto simp: cursors_in_range_def)
  show ?thesis
  proof (cases c)
    case Init
    then show ?thesis using assms(2) init_consistent [OF n0] by (auto simp: s)
  next
    case (Enqueue ev)
    show ?thesis
    proof (cases "(tail rb + 1) mod n = head rb")
      case True
      then have "s' = s" using assms(2) by (simp add: s Enqueue enqueue_event_result)
      then show ?thesis using assms(1) by simp
    next
      case False
      then have s': "s' = (rb\<lparr>tail := (tail rb + 1) mod n,
                              buffer := (buffer rb)[unat (tail rb mod n) := ev]\<rparr>, occ + 1)"
        using assms(2) by (simp add: s Enqueue enqueue_event_result)
      show ?thesis
        using inr next_cursor_in_range [OF n0, of "tail rb"]
        by (simp add: s' consistent_def enqueue_occupancy [OF inr False] occ cursors_in_range_def)
    qed
  next
    case (Dequeue out)
    show ?thesis
    proof (cases "head rb = tail rb")
      case True
      then have "s' = s" using assms(2) by (simp add: s Dequeue dequeue_event_result)
      then show ?thesis using assms(1) by simp
    next
      case False
      then have s': "s' = (rb\<lparr>head := (head rb + 1) mod n\<rparr>, occ - 1)"
        using assms(2) by (simp add: s Dequeue dequeue_event_result)
      show ?thesis
        using inr next_cursor_in_range [OF n0, of "head rb"]
        by (simp add: s' consistent_def dequeue_occupancy [OF inr False] occ cursors_in_range_def)
    qed
  qed
qed

lemma exec_consistent:
  assumes "exec n cs s = Some (ys, s')" "consistent n s"
  shows "consistent n s'"
  using assms
proof (induction cs arbitrary: s ys)
  case Nil
  then show ?case by simp
next
  case (Cons c cs)
  from Cons.prems(1) obtain y s1 ys1 where
    st: "step n c s = Some (y, s1)" and ex: "exec n cs s1 = Some (ys1, s')"
    by (auto split: option.splits)
  from step_consistent [OF Cons.prems(2) st] have "consistent n s1" .
  from Cons.IH [OF ex this] show ?case .
qed

lemma reached_consistent:
  assumes "n \<noteq> 0" "exec n (Init # cs) s0 = Some (ys, rb, occ)"
  shows "consistent n (rb, occ)"
proof -
  obtain rb0 k0 where s0: "s0 = (rb0, k0)" by (cases s0)
  from assms(2) obtain ys1 where "exec n cs (ring_buffer_init rb0, 0) = Some (ys1, rb, occ)"
    by (auto simp: s0 split: option.splits)
  from exec_consistent [OF this init_consistent [OF assms(1)]] show ?thesis .
qed


section \<open>Filling the buffer of the program\<close>

lemma exec_append:
  "exec n (xs @ ys) s =
     (case exec n xs s of
        None \<Rightarrow> None
      | Some (o1, s1) \<Rightarrow>
          (case exec n ys s1 of None \<Rightarrow> None | Some (o2, s2) \<Rightarrow> Some (o1 @ o2, s2)))"
  by (induction xs arbitrary: s) (auto split: option.splits)


lemma fill_step:
  fixes n :: "64 word"
  assumes "Suc k < unat n" "length b = unat n"
  shows "enqueue_event n \<lparr>head = 0, tail = of_nat k, buffer = replicate k a @ drop k b\<rparr> a =
           Some (0, \<lparr>head = 0, tail = of_nat (Suc k), buffer = replicate (Suc k) a @ drop (Suc k) b\<rparr>)"
proof -
  have uk: "unat (of_nat k :: 64 word) = k"
    by (rule le_unat_uoi [of _ n]) (use assms(1) in simp)
  have usk: "unat (of_nat (Suc k) :: 64 word) = Suc k"
    by (rule le_unat_uoi [of _ n]) (use assms(1) in simp)
  have lt: "(of_nat (Suc k) :: 64 word) < n" "(of_nat k :: 64 word) < n"
    unfolding word_less_nat_alt uk usk using assms(1) by simp_all
  have suc: "(of_nat k :: 64 word) + 1 = of_nat (Suc k)"
    by simp
  have nxt: "((of_nat k :: 64 word) + 1) mod n = of_nat (Suc k)"
    unfolding suc by (rule mod_word_less [OF lt(1)])
  have nz: "(of_nat (Suc k) :: 64 word) \<noteq> 0"
    using usk by (metis nat.distinct(1) unat_0)
  have idx: "unat ((of_nat k :: 64 word) mod n) = k"
    using lt(2) by (simp add: mod_word_less uk)
  have kb: "k < length b" using assms by simp
  have upd: "(replicate k a @ drop k b)[k := a] = replicate (Suc k) a @ drop (Suc k) b"
    using kb
    by (simp add: list_update_append replicate_append_same upd_conv_take_nth_drop
        flip: Cons_nth_drop_Suc)
  show ?thesis
    by (simp add: enqueue_event_result nxt nz idx upd del: replicate_Suc of_nat_Suc)
qed


lemma exec_fill:
  fixes n :: "64 word"
  assumes "k < unat n" "length b = unat n"
  shows "exec n (replicate k (Enqueue a)) (\<lparr>head = 0, tail = 0, buffer = b\<rparr>, c) =
           Some (replicate k (Enqueued 0),
                 \<lparr>head = 0, tail = of_nat k, buffer = replicate k a @ drop k b\<rparr>, c + int k)"
  using assms(1)
proof (induction k)
  case 0
  show ?case by simp
next
  case (Suc k)
  have IH: "exec n (replicate k (Enqueue a)) (\<lparr>head = 0, tail = 0, buffer = b\<rparr>, c) =
              Some (replicate k (Enqueued 0),
                    \<lparr>head = 0, tail = of_nat k, buffer = replicate k a @ drop k b\<rparr>, c + int k)"
    using Suc by simp
  have snoc: "replicate (Suc k) x = replicate k x @ [x]" for x :: 'b
    by (simp add: replicate_append_same)
  have "exec n (replicate k (Enqueue a) @ [Enqueue a]) (\<lparr>head = 0, tail = 0, buffer = b\<rparr>, c) =
          Some (replicate k (Enqueued 0) @ [Enqueued 0],
                \<lparr>head = 0, tail = of_nat (Suc k), buffer = replicate (Suc k) a @ drop (Suc k) b\<rparr>,
                c + int (Suc k))"
    unfolding exec_append IH
    by (simp add: fill_step [OF Suc.prems assms(2)] del: replicate_Suc of_nat_Suc)
  then show ?case
    unfolding snoc [symmetric] .
qed

lemma full_state_reached:
  "exec RING_SIZE (Init # replicate 1023 (Enqueue a)) (global_ring_buffer, 0) =
     Some (Done # replicate 1023 (Enqueued 0),
           \<lparr>head = 0, tail = 1023, buffer = replicate 1023 a @ [zero_event]\<rparr>, 1023)"
proof -
  have "exec RING_SIZE (replicate 1023 (Enqueue a))
          (\<lparr>head = 0, tail = 0, buffer = replicate 1024 zero_event\<rparr>, 0) =
        Some (replicate 1023 (Enqueued 0),
              \<lparr>head = 0, tail = of_nat 1023,
                 buffer = replicate 1023 a @ drop 1023 (replicate 1024 zero_event)\<rparr>, 0 + int 1023)"
    by (rule exec_fill) (simp_all add: RING_SIZE_def)
  then show ?thesis
    by (simp add: global_ring_buffer_def ring_buffer_init_def)
qed

lemma wrap_state_reached:
  "exec RING_SIZE (Init # replicate 1023 (Enqueue a) @ [Dequeue z]) (global_ring_buffer, 0) =
     Some (Done # replicate 1023 (Enqueued 0) @ [Dequeued 0 a],
           \<lparr>head = 1, tail = 1023, buffer = replicate 1023 a @ [zero_event]\<rparr>, 1022)"
proof -
  have "exec RING_SIZE ((Init # replicate 1023 (Enqueue a)) @ [Dequeue z]) (global_ring_buffer, 0) =
     Some ((Done # replicate 1023 (Enqueued 0)) @ [Dequeued 0 a],
           \<lparr>head = 1, tail = 1023, buffer = replicate 1023 a @ [zero_event]\<rparr>, 1022)"
    unfolding exec_append full_state_reached
    by (simp add: dequeue_event_result RING_SIZE_def nth_append)
  then show ?thesis by simp
qed

lemma wrapped_state_reached:
  "exec RING_SIZE (Init # replicate 1023 (Enqueue a) @ [Dequeue z, Enqueue a]) (global_ring_buffer, 0) =
     Some (Done # replicate 1023 (Enqueued 0) @ [Dequeued 0 a, Enqueued 0],
           \<lparr>head = 1, tail = 0, buffer = replicate 1023 a @ [a]\<rparr>, 1023)"
proof -
  have "exec RING_SIZE ((Init # replicate 1023 (Enqueue a) @ [Dequeue z]) @ [Enqueue a])
          (global_ring_buffer, 0) =
     Some ((Done # replicate 1023 (Enqueued 0) @ [Dequeued 0 a]) @ [Enqueued 0],
           \<lparr>head = 1, tail = 0, buffer = replicate 1023 a @ [a]\<rparr>, 1023)"
    unfolding exec_append wrap_state_reached
    by (simp add: enqueue_event_result RING_SIZE_def list_update_append)
  then show ?thesis by simp
qed


section \<open>Initialisation sets the cursors\<close>

text \<open>
  Claim C7. \<open>ring_buffer_init\<close> sets both cursors to 0 whatever the structure held
  before. It is a total function with no error result; it leaves the array untouched.
\<close>

theorem ring_buffer_init_zeroes_cursors:
  "head (ring_buffer_init rb) = 0 \<and> tail (ring_buffer_init rb) = 0
     \<and> buffer (ring_buffer_init rb) = buffer rb"
  by (simp add: ring_buffer_init_def)

section \<open>Full and empty\<close>

text \<open>
  Claim C1. In every state reached by a sequence of calls that starts with the
  initialisation, \<open>enqueue_event\<close> returns \<open>-1\<close> (full) exactly when the number of
  events stored is \<open>ring_size - 1\<close>, and \<open>dequeue_event\<close> returns \<open>-1\<close> (empty)
  exactly when that number is 0. The number stored is the count kept by \<open>step\<close>:
  successful enqueues minus successful dequeues since the initialisation.
\<close>

theorem full_and_empty_iff_occupancy:
  assumes "n \<noteq> 0" and "exec n (Init # calls) s0 = Some (outs, rb, occ)"
  shows "((map_option fst (enqueue_event n rb ev) = Some (- 1)) = (occ = uint n - 1))
       \<and> ((map_option fst (dequeue_event n rb out) = Some (- 1)) = (occ = 0))"
proof -
  from reached_consistent [OF assms] have inr: "cursors_in_range n rb" and occ: "occ = occupancy n rb"
    by (simp_all add: consistent_def)
  have "(map_option fst (enqueue_event n rb ev) = Some (- 1)) = ((tail rb + 1) mod n = head rb)"
    by (simp add: enqueue_return)
  moreover have "(map_option fst (dequeue_event n rb out) = Some (- 1)) = (head rb = tail rb)"
    by (simp add: dequeue_return)
  ultimately show ?thesis
    by (simp add: full_iff_occupancy [OF inr] empty_iff_occupancy [OF inr] occ)
qed

text \<open>
  The theorem at the program's own size: after 1023 enqueues into the global buffer the
  count is 1023, one less than \<open>RING_SIZE\<close>, so the next enqueue returns \<open>-1\<close> and a
  dequeue does not.
\<close>

theorem full_and_empty_iff_occupancy_witness:
  "RING_SIZE \<noteq> 0
   \<and> exec RING_SIZE (Init # replicate 1023 (Enqueue first_event)) (global_ring_buffer, 0) =
       Some (Done # replicate 1023 (Enqueued 0), full_buffer, 1023)
   \<and> (1023 :: int) = uint RING_SIZE - 1
   \<and> map_option fst (enqueue_event RING_SIZE full_buffer first_event) = Some (- 1)
   \<and> map_option fst (dequeue_event RING_SIZE full_buffer zero_event) \<noteq> Some (- 1)"
proof -
  have r: "exec RING_SIZE (Init # replicate 1023 (Enqueue first_event)) (global_ring_buffer, 0) =
       Some (Done # replicate 1023 (Enqueued 0), full_buffer, 1023)"
    unfolding full_buffer_def by (rule full_state_reached)
  have c: "(1023 :: int) = uint RING_SIZE - 1"
    by (simp add: RING_SIZE_def)
  from full_and_empty_iff_occupancy [OF ring_size_nonzero r, of first_event zero_event] c
  have "map_option fst (enqueue_event RING_SIZE full_buffer first_event) = Some (- 1)"
    and "map_option fst (dequeue_event RING_SIZE full_buffer zero_event) \<noteq> Some (- 1)"
    by simp_all
  with r c show ?thesis
    by (simp add: ring_size_nonzero)
qed

section \<open>The test for a full buffer\<close>

text \<open>
  Claim C2, as amended. \<open>enqueue_event\<close> computes the next tail as
  \<open>(tail + 1) mod ring_size\<close> and returns \<open>-1\<close> exactly when that value equals
  \<open>head\<close>; when it differs, the call returns 0. The claim's own test,
  \<open>tail + 1 - head > ring_size\<close> with \<open>tail + 1\<close> not reduced, is not the one in the
  code, which is written for cursors that stay below \<open>ring_size\<close>.
\<close>

theorem enqueue_full_iff_next_tail_is_head:
  "(map_option fst (enqueue_event n rb ev) = Some (- 1)) = ((tail rb + 1) mod n = head rb)
   \<and> (map_option fst (enqueue_event n rb ev) = Some 0) = ((tail rb + 1) mod n \<noteq> head rb)"
  by (simp add: enqueue_return)

text \<open>
  Claim C2 as stated fails on \<open>full_buffer\<close>, the state after 1023 enqueues: the call
  returns \<open>-1\<close>, while \<open>tail + 1 - head\<close> is 1024, which is not greater than
  \<open>RING_SIZE\<close>.
\<close>

theorem enqueue_full_test_counterexample:
  "exec RING_SIZE (Init # replicate 1023 (Enqueue first_event)) (global_ring_buffer, 0) =
     Some (Done # replicate 1023 (Enqueued 0), full_buffer, 1023)
   \<and> enqueue_event RING_SIZE full_buffer first_event = Some (- 1, full_buffer)
   \<and> \<not> (RING_SIZE < (tail full_buffer + 1) - head full_buffer)"
proof -
  have "exec RING_SIZE (Init # replicate 1023 (Enqueue first_event)) (global_ring_buffer, 0) =
     Some (Done # replicate 1023 (Enqueued 0), full_buffer, 1023)"
    unfolding full_buffer_def by (rule full_state_reached)
  moreover have "enqueue_event RING_SIZE full_buffer first_event = Some (- 1, full_buffer)"
    by (simp add: enqueue_event_result full_buffer_def RING_SIZE_def)
  moreover have "\<not> (RING_SIZE < (tail full_buffer + 1) - head full_buffer)"
    by (simp add: full_buffer_def RING_SIZE_def)
  ultimately show ?thesis by simp
qed

section \<open>How the cursors move\<close>

text \<open>
  Claim C3, as amended. In every reached state both cursors are below \<open>ring_size\<close>.
  A successful enqueue moves \<open>tail\<close> to \<open>tail + 1\<close>, or to 0 when \<open>tail + 1\<close> is
  \<open>ring_size\<close>, and leaves \<open>head\<close>; a successful dequeue does the same to \<open>head\<close>
  and leaves \<open>tail\<close>. The cursors are positions in the ring, not unbounded counters.
\<close>

theorem cursors_advance_around_the_ring:
  assumes "n \<noteq> 0" and "exec n (Init # calls) s0 = Some (outs, rb, occ)"
  shows "head rb < n \<and> tail rb < n
     \<and> (enqueue_event n rb ev = Some (0, rb') \<longrightarrow>
          uint (tail rb') = (if uint (tail rb) + 1 = uint n then 0 else uint (tail rb) + 1)
          \<and> head rb' = head rb)
     \<and> (dequeue_event n rb out = Some (0, rb'', out') \<longrightarrow>
          uint (head rb'') = (if uint (head rb) + 1 = uint n then 0 else uint (head rb) + 1)
          \<and> tail rb'' = tail rb)"
proof -
  from reached_consistent [OF assms] have inr: "cursors_in_range n rb"
    by (simp add: consistent_def)
  then have h: "head rb < n" and t: "tail rb < n"
    by (simp_all add: cursors_in_range_def)
  have enq: "uint (tail rb') = next_index (uint n) (uint (tail rb)) \<and> head rb' = head rb"
    if "enqueue_event n rb ev = Some (0, rb')"
    using that by (auto simp: enqueue_event_result uint_next_cursor [OF t] split: if_splits)
  have deq: "uint (head rb'') = next_index (uint n) (uint (head rb)) \<and> tail rb'' = tail rb"
    if "dequeue_event n rb out = Some (0, rb'', out')"
    using that by (auto simp: dequeue_event_result uint_next_cursor [OF h] split: if_splits)
  show ?thesis
    using h t enq deq by (simp add: next_index_def)
qed

text \<open>
  The theorem on \<open>wrap_buffer\<close>, reached by 1023 enqueues and one dequeue: the enqueue
  takes \<open>tail\<close> from 1023 to 0, the dequeue takes \<open>head\<close> from 1 to 2.
\<close>

theorem cursors_advance_around_the_ring_witness:
  "RING_SIZE \<noteq> 0
   \<and> exec RING_SIZE (Init # replicate 1023 (Enqueue first_event) @ [Dequeue zero_event])
         (global_ring_buffer, 0) =
       Some (Done # replicate 1023 (Enqueued 0) @ [Dequeued 0 first_event], wrap_buffer, 1022)
   \<and> head wrap_buffer < RING_SIZE \<and> tail wrap_buffer < RING_SIZE
   \<and> enqueue_event RING_SIZE wrap_buffer first_event = Some (0, wrapped_buffer)
   \<and> uint (tail wrapped_buffer) = 0 \<and> head wrapped_buffer = head wrap_buffer
   \<and> dequeue_event RING_SIZE wrap_buffer zero_event =
       Some (0, wrap_buffer\<lparr>head := 2\<rparr>, first_event)
   \<and> uint (head (wrap_buffer\<lparr>head := 2\<rparr>)) = uint (head wrap_buffer) + 1
   \<and> tail (wrap_buffer\<lparr>head := 2\<rparr>) = tail wrap_buffer"
proof -
  have r: "exec RING_SIZE (Init # replicate 1023 (Enqueue first_event) @ [Dequeue zero_event])
         (global_ring_buffer, 0) =
       Some (Done # replicate 1023 (Enqueued 0) @ [Dequeued 0 first_event], wrap_buffer, 1022)"
    unfolding wrap_buffer_def by (rule wrap_state_reached)
  have e: "enqueue_event RING_SIZE wrap_buffer first_event = Some (0, wrapped_buffer)"
    by (simp add: enqueue_event_result wrap_buffer_def wrapped_buffer_def RING_SIZE_def
        list_update_append)
  have d: "dequeue_event RING_SIZE wrap_buffer zero_event =
       Some (0, wrap_buffer\<lparr>head := 2\<rparr>, first_event)"
    by (simp add: dequeue_event_result wrap_buffer_def RING_SIZE_def nth_append)
  from cursors_advance_around_the_ring [OF ring_size_nonzero r,
      of first_event wrapped_buffer zero_event "wrap_buffer\<lparr>head := 2\<rparr>" first_event] r e d
  show ?thesis
    by (simp add: ring_size_nonzero wrap_buffer_def RING_SIZE_def)
qed

text \<open>
  Claim C3 as stated fails there: the successful enqueue on \<open>wrap_buffer\<close> takes
  \<open>tail\<close> from 1023 down to 0 instead of up to 1024, and in the state it reaches
  \<open>head\<close> is 1 and above \<open>tail\<close>.
\<close>

theorem cursors_wrap_counterexample:
  "exec RING_SIZE (Init # replicate 1023 (Enqueue first_event) @ [Dequeue zero_event])
         (global_ring_buffer, 0) =
       Some (Done # replicate 1023 (Enqueued 0) @ [Dequeued 0 first_event], wrap_buffer, 1022)
   \<and> enqueue_event RING_SIZE wrap_buffer first_event = Some (0, wrapped_buffer)
   \<and> tail wrap_buffer = 1023 \<and> tail wrapped_buffer = 0
   \<and> \<not> (head wrapped_buffer \<le> tail wrapped_buffer)"
proof -
  have "exec RING_SIZE (Init # replicate 1023 (Enqueue first_event) @ [Dequeue zero_event])
         (global_ring_buffer, 0) =
       Some (Done # replicate 1023 (Enqueued 0) @ [Dequeued 0 first_event], wrap_buffer, 1022)"
    unfolding wrap_buffer_def by (rule wrap_state_reached)
  moreover have "enqueue_event RING_SIZE wrap_buffer first_event = Some (0, wrapped_buffer)"
    by (simp add: enqueue_event_result wrap_buffer_def wrapped_buffer_def RING_SIZE_def
        list_update_append)
  ultimately show ?thesis
    by (simp add: wrap_buffer_def wrapped_buffer_def)
qed

section \<open>The bound on the content\<close>

text \<open>
  Claim C4, as amended. In every reached state the number of events stored equals
  \<open>(tail - head) mod ring_size\<close>, computed on integers, and lies between 0 and
  \<open>ring_size - 1\<close>.
\<close>

theorem occupancy_bounded:
  assumes "n \<noteq> 0" and "exec n (Init # calls) s0 = Some (outs, rb, occ)"
  shows "occ = occupancy n rb \<and> 0 \<le> occ \<and> occ \<le> uint n - 1"
proof -
  from reached_consistent [OF assms] have inr: "cursors_in_range n rb" and occ: "occ = occupancy n rb"
    by (simp_all add: consistent_def)
  from occupancy_bounds [OF inr] occ show ?thesis by simp
qed

text \<open>
  The theorem on \<open>wrapped_buffer\<close>, reached by 1023 enqueues, a dequeue and an enqueue:
  1023 events are stored, the largest number \<open>RING_SIZE\<close> allows.
\<close>

theorem occupancy_bounded_witness:
  "RING_SIZE \<noteq> 0
   \<and> exec RING_SIZE
         (Init # replicate 1023 (Enqueue first_event) @ [Dequeue zero_event, Enqueue first_event])
         (global_ring_buffer, 0) =
       Some (Done # replicate 1023 (Enqueued 0) @ [Dequeued 0 first_event, Enqueued 0],
             wrapped_buffer, 1023)
   \<and> (1023 :: int) = occupancy RING_SIZE wrapped_buffer
   \<and> (0 :: int) \<le> 1023 \<and> (1023 :: int) \<le> uint RING_SIZE - 1"
proof -
  have r: "exec RING_SIZE
         (Init # replicate 1023 (Enqueue first_event) @ [Dequeue zero_event, Enqueue first_event])
         (global_ring_buffer, 0) =
       Some (Done # replicate 1023 (Enqueued 0) @ [Dequeued 0 first_event, Enqueued 0],
             wrapped_buffer, 1023)"
    unfolding wrapped_buffer_def by (rule wrapped_state_reached)
  from occupancy_bounded [OF ring_size_nonzero r] r
  show ?thesis by (simp add: ring_size_nonzero)
qed

text \<open>
  Claim C4 as stated takes \<open>tail - head\<close> for the number stored. On \<open>wrapped_buffer\<close>
  the 64-bit difference is \<open>2 ^ 64 - 1\<close>, far above \<open>RING_SIZE - 1\<close>, and the integer
  difference is \<open>-1\<close>, while 1023 events are stored.
\<close>

theorem cursor_difference_counterexample:
  "exec RING_SIZE
         (Init # replicate 1023 (Enqueue first_event) @ [Dequeue zero_event, Enqueue first_event])
         (global_ring_buffer, 0) =
       Some (Done # replicate 1023 (Enqueued 0) @ [Dequeued 0 first_event, Enqueued 0],
             wrapped_buffer, 1023)
   \<and> \<not> (tail wrapped_buffer - head wrapped_buffer \<le> RING_SIZE - 1)
   \<and> uint (tail wrapped_buffer) - uint (head wrapped_buffer) = - 1"
proof -
  have "exec RING_SIZE
         (Init # replicate 1023 (Enqueue first_event) @ [Dequeue zero_event, Enqueue first_event])
         (global_ring_buffer, 0) =
       Some (Done # replicate 1023 (Enqueued 0) @ [Dequeued 0 first_event, Enqueued 0],
             wrapped_buffer, 1023)"
    unfolding wrapped_buffer_def by (rule wrapped_state_reached)
  moreover have "\<not> (tail wrapped_buffer - head wrapped_buffer \<le> RING_SIZE - 1)"
    by (simp add: wrapped_buffer_def RING_SIZE_def word_le_def unsigned_minus_1_eq_mask
        mask_eq_exp_minus_1)
  moreover have "uint (tail wrapped_buffer) - uint (head wrapped_buffer) = - 1"
    by (simp add: wrapped_buffer_def)
  ultimately show ?thesis by simp
qed

section \<open>The scenario with four slots\<close>

text \<open>
  Claim C5, as amended. With \<open>ring_size = 4\<close>, whatever the structure held before the
  initialisation: of the enqueues of \<open>A\<close>, \<open>B\<close>, \<open>C\<close>, \<open>D\<close>, \<open>E\<close> the first three
  return 0 and the last two return \<open>-1\<close>; three dequeues then deliver \<open>A\<close>, \<open>B\<close>,
  \<open>C\<close> in this order; a fourth returns \<open>-1\<close> and leaves the caller's event as it was;
  an enqueue of \<open>E\<close> then returns 0.
\<close>

theorem capacity_four_scenario:
  "exec 4 [Init, Enqueue A, Enqueue B, Enqueue C, Enqueue D, Enqueue E,
           Dequeue z, Dequeue z, Dequeue z, Dequeue z, Enqueue E]
      (\<lparr>head = h, tail = t, buffer = [s0, s1, s2, s3]\<rparr>, k) =
   Some ([Done, Enqueued 0, Enqueued 0, Enqueued 0, Enqueued (- 1), Enqueued (- 1),
          Dequeued 0 A, Dequeued 0 B, Dequeued 0 C, Dequeued (- 1) z, Enqueued 0],
         \<lparr>head = 3, tail = 0, buffer = [A, B, C, E]\<rparr>, 1)"
  by (simp add: ring_buffer_init_def enqueue_event_result dequeue_event_result)

text \<open>
  Claim C5 as stated has the fourth enqueue succeed. With four slots the buffer is full
  after three events: the fourth enqueue returns \<open>-1\<close> and the last slot stays unused.
\<close>

theorem capacity_four_counterexample:
  "exec 4 [Init, Enqueue \<lparr>pid = 1, vpn = 1\<rparr>, Enqueue \<lparr>pid = 1, vpn = 2\<rparr>,
           Enqueue \<lparr>pid = 1, vpn = 3\<rparr>, Enqueue \<lparr>pid = 1, vpn = 4\<rparr>]
      (\<lparr>head = 0, tail = 0, buffer = [zero_event, zero_event, zero_event, zero_event]\<rparr>, 0) =
   Some ([Done, Enqueued 0, Enqueued 0, Enqueued 0, Enqueued (- 1)],
         \<lparr>head = 0, tail = 3,
            buffer = [\<lparr>pid = 1, vpn = 1\<rparr>, \<lparr>pid = 1, vpn = 2\<rparr>, \<lparr>pid = 1, vpn = 3\<rparr>,
                      zero_event]\<rparr>, 3)"
  by (simp add: ring_buffer_init_def enqueue_event_result)

section \<open>The order of claim and write in the enqueue\<close>

text \<open>
  Claim C6 asks that the event be written into the claimed slot before a consumer may
  take the slot for readable. The code moves \<open>tail\<close> first (the loop, \<open>enqueue_claim\<close>)
  and writes afterwards (\<open>enqueue_write\<close>), although its comment on the compare and
  exchange says that the written event is visible before \<open>tail\<close> advances. The theorem
  runs the program's global buffer through this order with a consumer in between: the
  producer claims slot 0 for \<open>first_event\<close>; a dequeue then returns 0 and delivers the
  zeros that the slot held; the producer writes \<open>first_event\<close> into the slot already
  consumed; the buffer is then empty and \<open>first_event\<close> is never delivered.
\<close>

theorem consumer_reads_slot_before_payload_write:
  "enqueue_claim RING_SIZE (ring_buffer_init global_ring_buffer) =
     Some (Some 0, \<lparr>head = 0, tail = 1, buffer = replicate 1024 zero_event\<rparr>)
   \<and> dequeue_event RING_SIZE \<lparr>head = 0, tail = 1, buffer = replicate 1024 zero_event\<rparr>
         \<lparr>pid = 5, vpn = 5\<rparr> =
       Some (0, \<lparr>head = 1, tail = 1, buffer = replicate 1024 zero_event\<rparr>, zero_event)
   \<and> zero_event \<noteq> first_event
   \<and> enqueue_write RING_SIZE 0 \<lparr>head = 1, tail = 1, buffer = replicate 1024 zero_event\<rparr>
         first_event =
       \<lparr>head = 1, tail = 1, buffer = (replicate 1024 zero_event)[0 := first_event]\<rparr>
   \<and> dequeue_event RING_SIZE
         \<lparr>head = 1, tail = 1, buffer = (replicate 1024 zero_event)[0 := first_event]\<rparr>
         \<lparr>pid = 5, vpn = 5\<rparr> =
       Some (- 1, \<lparr>head = 1, tail = 1, buffer = (replicate 1024 zero_event)[0 := first_event]\<rparr>,
             \<lparr>pid = 5, vpn = 5\<rparr>)"
  by (simp add: enqueue_claim_result dequeue_event_result enqueue_write_def ring_buffer_init_def
      global_ring_buffer_def RING_SIZE_def zero_event_def first_event_def)

section \<open>Dequeue from a buffer that is not empty\<close>

text \<open>
  Claim C8. In every state with \<open>head \<noteq> tail\<close>, \<open>dequeue_event\<close> returns 0, copies
  the event in slot \<open>head mod ring_size\<close> (a position inside the array) into the
  caller's event, and moves \<open>head\<close> to \<open>(head + 1) mod ring_size\<close>; for a \<open>head\<close>
  below \<open>ring_size\<close> this is the position after the slot read, 0 after the last one.
\<close>

theorem dequeue_nonempty_copies_head_slot:
  assumes "n \<noteq> 0" and "buffer_sized n rb" and "head rb \<noteq> tail rb"
  shows "dequeue_event n rb out =
           Some (0, rb\<lparr>head := (head rb + 1) mod n\<rparr>, buffer rb ! unat (head rb mod n))
       \<and> unat (head rb mod n) < length (buffer rb)
       \<and> (head rb < n \<longrightarrow>
            uint ((head rb + 1) mod n) =
              (if uint (head rb) + 1 = uint n then 0 else uint (head rb) + 1))"
proof -
  have "head rb mod n < n"
    using assms(1) by (simp add: word_mod_less_divisor word_neq_0_conv)
  then have "unat (head rb mod n) < length (buffer rb)"
    using assms(2) by (simp add: buffer_sized_def word_less_nat_alt)
  moreover have "uint ((head rb + 1) mod n) = next_index (uint n) (uint (head rb))" if "head rb < n"
    by (rule uint_next_cursor [OF that])
  ultimately show ?thesis
    using assms(3) by (simp add: dequeue_event_result next_index_def)
qed

text \<open>The theorem on \<open>wrap_buffer\<close>: the dequeue delivers the event of slot 1.\<close>

theorem dequeue_nonempty_copies_head_slot_witness:
  "RING_SIZE \<noteq> 0 \<and> buffer_sized RING_SIZE wrap_buffer \<and> head wrap_buffer \<noteq> tail wrap_buffer
   \<and> dequeue_event RING_SIZE wrap_buffer zero_event = Some (0, wrap_buffer\<lparr>head := 2\<rparr>, first_event)
   \<and> unat (head wrap_buffer mod RING_SIZE) < length (buffer wrap_buffer)
   \<and> head wrap_buffer < RING_SIZE
   \<and> uint ((head wrap_buffer + 1) mod RING_SIZE) = 2"
proof -
  have b: "buffer_sized RING_SIZE wrap_buffer"
    by (simp add: buffer_sized_def wrap_buffer_def RING_SIZE_def)
  have ne: "head wrap_buffer \<noteq> tail wrap_buffer"
    by (simp add: wrap_buffer_def)
  from dequeue_nonempty_copies_head_slot [OF ring_size_nonzero b ne, of zero_event] b ne
  show ?thesis
    by (simp add: ring_size_nonzero wrap_buffer_def RING_SIZE_def nth_append)
qed

section \<open>Both calls return\<close>

text \<open>
  Claim C9. A call that runs alone returns from every state: the loop of the enqueue
  ends, \<open>enqueue_event\<close> returns 0 or \<open>-1\<close>, and \<open>dequeue_event\<close> returns 0 or
  \<open>-1\<close>. None of the three is the value \<open>None\<close> of a loop that does not end.
\<close>

theorem calls_always_return:
  assumes "n \<noteq> 0"
  shows "(\<exists>y. enqueue_claim n rb = Some y)
       \<and> (\<exists>rb'. enqueue_event n rb ev = Some (0, rb') \<or> enqueue_event n rb ev = Some (- 1, rb'))
       \<and> (\<exists>rb' out'. dequeue_event n rb out = Some (0, rb', out')
                     \<or> dequeue_event n rb out = Some (- 1, rb', out'))"
  by (simp add: enqueue_claim_result enqueue_event_result dequeue_event_result)

text \<open>The theorem at \<open>RING_SIZE\<close> on the full buffer.\<close>

theorem calls_always_return_witness:
  "RING_SIZE \<noteq> 0
   \<and> (\<exists>y. enqueue_claim RING_SIZE full_buffer = Some y)
   \<and> (\<exists>rb'. enqueue_event RING_SIZE full_buffer first_event = Some (0, rb')
            \<or> enqueue_event RING_SIZE full_buffer first_event = Some (- 1, rb'))
   \<and> (\<exists>rb' out'. dequeue_event RING_SIZE full_buffer zero_event = Some (0, rb', out')
                 \<or> dequeue_event RING_SIZE full_buffer zero_event = Some (- 1, rb', out'))"
  using calls_always_return [OF ring_size_nonzero, of full_buffer first_event zero_event]
  by (simp add: ring_size_nonzero)

section \<open>Calls that fail change nothing\<close>

text \<open>
  Claim C10, as amended. When \<open>enqueue_event\<close> returns \<open>-1\<close> the whole structure,
  both cursors and every slot, is as before the call; the event is only read. When
  \<open>dequeue_event\<close> returns \<open>-1\<close> in the first iteration of its loop, because it has
  loaded equal cursors, the structure is as before and the caller's event is not written,
  whatever other threads would do later. Every \<open>-1\<close> of a dequeue that runs alone is of
  this kind.
\<close>

theorem failed_calls_change_nothing_unless_race_lost:
  "(map_option fst (enqueue_event n rb ev) = Some (- 1) \<longrightarrow>
      enqueue_event n rb ev = Some (- 1, rb))
   \<and> (map_option fst (dequeue_event n rb2 out) = Some (- 1) \<longrightarrow>
        dequeue_event n rb2 out = Some (- 1, rb2, out))
   \<and> (head rb3 = tail rb3 \<longrightarrow>
        dequeue_event_among n others rb3 out3 = Some (- 1, rb3, out3))"
proof -
  have "dequeue_event_among n others rb3 out3 = Some (- 1, rb3, out3)" if "head rb3 = tail rb3"
    using that by (cases others) (simp_all add: dequeue_event_result)
  then show ?thesis
    by (simp add: enqueue_event_result dequeue_event_result)
qed

text \<open>
  The theorem on the full buffer for the enqueue and on the empty global for the dequeue,
  alone and with a producer that would enqueue during the call.
\<close>

theorem failed_calls_change_nothing_unless_race_lost_witness:
  "map_option fst (enqueue_event RING_SIZE full_buffer first_event) = Some (- 1)
   \<and> enqueue_event RING_SIZE full_buffer first_event = Some (- 1, full_buffer)
   \<and> map_option fst (dequeue_event RING_SIZE global_ring_buffer first_event) = Some (- 1)
   \<and> dequeue_event RING_SIZE global_ring_buffer first_event =
       Some (- 1, global_ring_buffer, first_event)
   \<and> head global_ring_buffer = tail global_ring_buffer
   \<and> dequeue_event_among RING_SIZE [[Enqueue first_event]] global_ring_buffer first_event =
       Some (- 1, global_ring_buffer, first_event)"
proof -
  have e: "map_option fst (enqueue_event RING_SIZE full_buffer first_event) = Some (- 1)"
    by (simp add: enqueue_return full_buffer_def RING_SIZE_def)
  have d: "map_option fst (dequeue_event RING_SIZE global_ring_buffer first_event) = Some (- 1)"
    by (simp add: dequeue_return global_ring_buffer_def)
  have h: "head global_ring_buffer = tail global_ring_buffer"
    by (simp add: global_ring_buffer_def)
  from failed_calls_change_nothing_unless_race_lost
         [of RING_SIZE full_buffer first_event global_ring_buffer first_event
             global_ring_buffer "[[Enqueue first_event]]" first_event] e d h
  show ?thesis by blast
qed

text \<open>
  Claim C10 as stated fails for a dequeue that loses its slot. The buffer holds one
  event. A consumer whose event variable holds \<open>pid = 5\<close>, \<open>vpn = 5\<close> loads the
  cursors 0 and 1 and copies slot 0 into its variable (line 114); another consumer
  completes a dequeue and moves \<open>head\<close> to 1; the compare and exchange of the first
  (line 118) fails; its next iteration loads equal cursors and returns \<open>-1\<close> (line
  109), with \<open>first_event\<close> written into the caller's variable.
\<close>

theorem dequeue_lost_race_counterexample:
  "exec RING_SIZE [Init, Enqueue first_event] (global_ring_buffer, 0) =
     Some ([Done, Enqueued 0], one_event_buffer, 1)
   \<and> dequeue_event_among RING_SIZE [[Dequeue zero_event]] one_event_buffer
         \<lparr>pid = 5, vpn = 5\<rparr> =
       Some (- 1, \<lparr>head = 1, tail = 1, buffer = (replicate 1024 zero_event)[0 := first_event]\<rparr>,
             first_event)
   \<and> first_event \<noteq> \<lparr>pid = 5, vpn = 5\<rparr>"
  by (simp add: one_event_buffer_def global_ring_buffer_def ring_buffer_init_def
      enqueue_event_result dequeue_event_result atomic_compare_exchange_def RING_SIZE_def
      first_event_def zero_event_def)

end
